theory Spec2Isabelle
  imports Complex_Main "HOL-Library.Sublist"
begin

section \<open>Python strings\<close>

text \<open>
  A Python \<^verbatim>\<open>str\<close> is modelled as a \<^typ>\<open>string\<close> whose characters are the code points
  below 256.  \<^verbatim>\<open>a in b\<close> on strings is \<^const>\<open>sublist\<close>.  Floats are idealised as
  rationals.
\<close>

definition whitespace_chars :: "char list" where
  \<comment> \<open>the code points below 256 for which \<^verbatim>\<open>str.isspace\<close> holds\<close>
  "whitespace_chars =
     [CHR 0x09, CHR 0x0A, CHR 0x0B, CHR 0x0C, CHR 0x0D, CHR 0x1C, CHR 0x1D, CHR 0x1E,
      CHR 0x1F, CHR 0x20, CHR 0x85, CHR 0xA0]"

definition is_space :: "char \<Rightarrow> bool" where
  "is_space c = (c \<in> set whitespace_chars)"

definition linebreak_chars :: "char list" where
  \<comment> \<open>the line boundaries of \<^verbatim>\<open>str.splitlines\<close> below 256\<close>
  "linebreak_chars = [CHR 0x0A, CHR 0x0B, CHR 0x0C, CHR 0x0D, CHR 0x1C, CHR 0x1D, CHR 0x1E, CHR 0x85]"

definition is_linebreak :: "char \<Rightarrow> bool" where
  "is_linebreak c = (c \<in> set linebreak_chars)"

definition lstrip :: "string \<Rightarrow> string" where
  "lstrip s = dropWhile is_space s"

definition rstrip :: "string \<Rightarrow> string" where
  "rstrip s = rev (dropWhile is_space (rev s))"

definition strip :: "string \<Rightarrow> string" where
  "strip s = rstrip (lstrip s)"

text \<open>
  \<^verbatim>\<open>str.splitlines()\<close>: the text is cut at every line boundary, a carriage return
  followed by a line feed counts as one boundary, and no empty line is reported after
  a final boundary.
\<close>

definition after_break :: "string \<Rightarrow> string" where
  \<comment> \<open>the text after the line boundary that starts the argument\<close>
  "after_break r =
     (case r of
        [] \<Rightarrow> []
      | c # r' \<Rightarrow>
          (case r' of
             [] \<Rightarrow> []
           | d # r'' \<Rightarrow> if c = CHR 0x0D \<and> d = CHR 0x0A then r'' else r'))"

function splitlines :: "string \<Rightarrow> string list" where
  "splitlines s =
     (if s = [] then []
      else takeWhile (\<lambda>c. \<not> is_linebreak c) s #
           splitlines (after_break (dropWhile (\<lambda>c. \<not> is_linebreak c) s)))"
  by pat_completeness auto

lemma length_after_break: "r \<noteq> [] \<Longrightarrow> length (after_break r) < length r"
  by (auto simp: after_break_def split: list.splits)

termination splitlines
proof (relation "measure length")
  show "wf (measure length)" by simp
next
  fix s :: string
  assume ne: "s \<noteq> []"
  let ?r = "dropWhile (\<lambda>c. \<not> is_linebreak c) s"
  show "(after_break ?r, s) \<in> measure length"
  proof (cases "?r = []")
    case True
    have "after_break ?r = []" unfolding True by (simp add: after_break_def)
    with ne show ?thesis by simp
  next
    case False
    from length_after_break [OF False] have "length (after_break ?r) < length ?r" .
    also have "length ?r \<le> length s" by (rule length_dropWhile_le)
    finally show ?thesis by simp
  qed
qed

declare splitlines.simps [simp del]

text \<open>\<^verbatim>\<open>str.split()\<close> with no argument: the maximal runs of non-whitespace characters.\<close>

function split :: "string \<Rightarrow> string list" where
  "split s =
     (if dropWhile is_space s = [] then []
      else takeWhile (\<lambda>c. \<not> is_space c) (dropWhile is_space s) #
           split (dropWhile (\<lambda>c. \<not> is_space c) (dropWhile is_space s)))"
  by pat_completeness auto

termination split
proof (relation "measure length")
  show "wf (measure length)" by simp
next
  fix s :: string
  let ?t = "dropWhile is_space s"
  assume ne: "?t \<noteq> []"
  then have "\<not> is_space (hd ?t)" by (rule hd_dropWhile)
  with ne have "dropWhile (\<lambda>c. \<not> is_space c) ?t = dropWhile (\<lambda>c. \<not> is_space c) (tl ?t)"
    by (cases ?t) auto
  moreover have "length (dropWhile (\<lambda>c. \<not> is_space c) (tl ?t)) \<le> length (tl ?t)"
    by (rule length_dropWhile_le)
  ultimately have "length (dropWhile (\<lambda>c. \<not> is_space c) ?t) \<le> length (tl ?t)"
    by simp
  also from ne have "length (tl ?t) < length ?t" by (cases ?t) auto
  also have "length ?t \<le> length s" by (rule length_dropWhile_le)
  finally show "(dropWhile (\<lambda>c. \<not> is_space c) ?t, s) \<in> measure length" by simp
qed

declare split.simps [simp del]

definition join_lines :: "string list \<Rightarrow> string" where
  \<comment> \<open>\<^verbatim>\<open>"\n".join(xs)\<close>\<close>
  "join_lines xs = (case xs of [] \<Rightarrow> [] | x # r \<Rightarrow> foldl (\<lambda>acc l. acc @ [CHR 0x0A] @ l) x r)"

definition py_slice :: "'a list \<Rightarrow> int \<Rightarrow> int \<Rightarrow> 'a list" where
  \<comment> \<open>\<^verbatim>\<open>xs[i:j]\<close>: a negative bound counts from the end, both bounds are clamped\<close>
  "py_slice xs i j =
     (let n = int (length xs);
          a = (if i < 0 then max 0 (n + i) else min i n);
          b = (if j < 0 then max 0 (n + j) else min j n)
      in drop (nat a) (take (nat b) xs))"

definition last_n :: "nat \<Rightarrow> 'a list \<Rightarrow> 'a list" where
  \<comment> \<open>\<^verbatim>\<open>xs[-n:]\<close> for a positive \<^verbatim>\<open>n\<close>\<close>
  "last_n n xs = drop (length xs - n) xs"

section \<open>Syntax trees\<close>

text \<open>
  What \<^verbatim>\<open>ast.parse\<close> returns, as far as the code looks at it: the kind of a node with the
  attributes the code reads, and its child nodes in the order of \<^verbatim>\<open>ast.iter_child_nodes\<close>.
  For a call node the attribute is the identifier of \<^verbatim>\<open>node.func\<close> when that is a
  \<^verbatim>\<open>Name\<close> node.  For an import-from node it is \<^verbatim>\<open>node.module\<close>, which is \<^verbatim>\<open>None\<close>
  for \<^verbatim>\<open>from . import x\<close>.
\<close>

datatype node_kind =
    Name string
  | Import "string list"
  | ImportFrom "string option"
  | Delete
  | Call "string option"
  | Attribute string
  | Other

datatype ast = Node node_kind "ast list"

fun kind :: "ast \<Rightarrow> node_kind" where
  "kind (Node k cs) = k"

fun children :: "ast \<Rightarrow> ast list" where
  "children (Node k cs) = cs"

fun nodes :: "ast \<Rightarrow> nat" where
  "nodes (Node k cs) = Suc (sum_list (map nodes cs))"

text \<open>\<^verbatim>\<open>ast.walk\<close>: breadth first, from a queue that starts with the root.\<close>

function walk_queue :: "ast list \<Rightarrow> ast list" where
  "walk_queue [] = []"
| "walk_queue (t # todo) = t # walk_queue (todo @ children t)"
  by pat_completeness auto

termination walk_queue
proof (relation "measure (\<lambda>q. sum_list (map nodes q))")
  show "wf (measure (\<lambda>q. sum_list (map nodes q)))" by simp
next
  fix t :: ast and todo :: "ast list"
  show "(todo @ children t, t # todo) \<in> measure (\<lambda>q. sum_list (map nodes q))"
    by (cases t) simp
qed

definition walk :: "ast \<Rightarrow> ast list" where
  "walk t = walk_queue [t]"

datatype py_error =
    ValueError string
  | FileNotFoundError string
  | SameFileError string
  | AttributeError
  | IndexError
  | ZeroDivisionError
  | UnicodeDecodeError
  | OSError string

text \<open>
  The outcome of \<^verbatim>\<open>ast.parse\<close> on a text: a tree, a \<^verbatim>\<open>SyntaxError\<close> with its message,
  or another exception.  The parser belongs to the host, so it is a parameter \<open>parse\<close>
  of every function that calls it.
\<close>

datatype parse_result = Parsed ast | SyntaxErr string | ParseRaised py_error

section \<open>CodeExecutionManager\<close>

definition safe_builtins :: "string list" where
  "safe_builtins =
     [''abs'', ''all'', ''any'', ''ascii'', ''bin'', ''bool'', ''bytes'', ''chr'',
      ''dict'', ''dir'', ''divmod'', ''enumerate'', ''filter'', ''float'', ''format'',
      ''frozenset'', ''hash'', ''hex'', ''int'', ''isinstance'', ''issubclass'', ''len'',
      ''list'', ''map'', ''max'', ''min'', ''next'', ''oct'', ''ord'', ''pow'', ''print'',
      ''range'', ''repr'', ''reversed'', ''round'', ''set'', ''slice'', ''sorted'',
      ''str'', ''sum'', ''tuple'', ''type'', ''zip'']"

definition allowed_modules :: "string list" where
  "allowed_modules =
     [''math'', ''random'', ''datetime'', ''collections'', ''itertools'',
      ''functools'', ''operator'', ''string'', ''re'', ''json'', ''copy'']"

definition top_module :: "string \<Rightarrow> string" where
  \<comment> \<open>\<^verbatim>\<open>name.split('.')[0]\<close>\<close>
  "top_module name = takeWhile (\<lambda>c. c \<noteq> CHR ''.'') name"

datatype verdict = Continue | ReturnFalse | Raise py_error

text \<open>
  The body of the loop of \<^verbatim>\<open>_is_safe_code\<close> on one node; \<open>dir_builtins\<close> is the
  host's \<^verbatim>\<open>dir(builtins)\<close>.
\<close>

fun check_node :: "string list \<Rightarrow> node_kind \<Rightarrow> verdict" where
  "check_node dir_builtins (Name ident) =
     (if ident \<notin> set safe_builtins \<and> ident \<in> set dir_builtins then ReturnFalse else Continue)"
| "check_node dir_builtins (Import names) =
     (if list_ex (\<lambda>name. top_module name \<notin> set allowed_modules) names then ReturnFalse
      else Continue)"
| "check_node dir_builtins (ImportFrom None) = Raise AttributeError"
| "check_node dir_builtins (ImportFrom (Some m)) =
     (if top_module m \<notin> set allowed_modules then ReturnFalse else Continue)"
| "check_node dir_builtins Delete = ReturnFalse"
| "check_node dir_builtins (Call func_id) =
     (if func_id = Some ''eval'' \<or> func_id = Some ''exec'' then ReturnFalse else Continue)"
| "check_node dir_builtins (Attribute attr) =
     (if prefix ''__'' attr then ReturnFalse else Continue)"
| "check_node dir_builtins Other = Continue"

fun check_nodes :: "string list \<Rightarrow> node_kind list \<Rightarrow> py_error + bool" where
  "check_nodes dir_builtins [] = Inr True"
| "check_nodes dir_builtins (k # ks) =
     (case check_node dir_builtins k of
        Continue \<Rightarrow> check_nodes dir_builtins ks
      | ReturnFalse \<Rightarrow> Inr False
      | Raise e \<Rightarrow> Inl e)"

definition is_safe_code :: "(string \<Rightarrow> parse_result) \<Rightarrow> string list \<Rightarrow> string \<Rightarrow> py_error + bool" where
  "is_safe_code parse dir_builtins code =
     (case parse code of
        SyntaxErr msg \<Rightarrow> Inr False
      | ParseRaised e \<Rightarrow> Inl e
      | Parsed tree \<Rightarrow> check_nodes dir_builtins (map kind (walk tree)))"

text \<open>
  The result dictionary.  A key that a dictionary does not have is \<open>None\<close>:
  the worker's dictionary has no \<^verbatim>\<open>execution_time\<close> until the parent stamps it, and
  only the worker's dictionary has \<^verbatim>\<open>local_vars\<close>.
\<close>

record exec_result =
  success :: bool
  output_text :: string
  error_text :: string
  execution_time :: "rat option"
  local_vars :: "(string \<times> string) list option"

text \<open>
  What the worker thread does, as the parent sees it after \<^verbatim>\<open>join(timeout)\<close>:
  it has ended after putting a dictionary on the queue, it has ended without putting
  one, or it is still alive with some text in the output buffer.  The measured time
  is the parent's \<^verbatim>\<open>time.time() - start_time\<close>.
\<close>

datatype worker_run =
    Finished "exec_result option" rat
  | StillAlive string

datatype event = ThreadStart | ThreadJoin int | QueueGet

datatype outcome = Returned exec_result | Raised py_error | Blocked

record manager =
  timeout :: int
  result_queue :: "exec_result list"

fun digit_char :: "nat \<Rightarrow> char" where
  "digit_char n = char_of (48 + n)"

function str_nat :: "nat \<Rightarrow> string" where
  "str_nat n = (if n < 10 then [digit_char n] else str_nat (n div 10) @ [digit_char (n mod 10)])"
  by pat_completeness auto

termination str_nat
  by (relation "measure id") auto

declare str_nat.simps [simp del]

definition str_int :: "int \<Rightarrow> string" where
  "str_int i = (if i < 0 then CHR ''-'' # str_nat (nat (- i)) else str_nat (nat i))"

definition round3 :: "rat \<Rightarrow> rat" where
  \<comment> \<open>\<^verbatim>\<open>round(x, 3)\<close>, idealised\<close>
  "round3 x = of_int (round (x * 1000)) / 1000"

definition refused :: exec_result where
  "refused =
     \<lparr>success = False, output_text = [], error_text = ''Code contains unsafe operations or imports'',
      execution_time = Some 0, local_vars = None\<rparr>"

definition timed_out :: "int \<Rightarrow> string \<Rightarrow> exec_result" where
  "timed_out t captured =
     \<lparr>success = False, output_text = captured,
      error_text = ''Execution timed out after '' @ str_int t @ '' seconds'',
      execution_time = Some (of_int t), local_vars = None\<rparr>"

text \<open>
  \<^verbatim>\<open>execute_code\<close>.  \<open>exec_thread\<close> is the run of the worker on the code.  The function
  returns what the caller gets, the thread and queue operations of the parent in
  order, and the manager with its queue afterwards.
\<close>

definition execute_code ::
  "(string \<Rightarrow> parse_result) \<Rightarrow> string list \<Rightarrow> (string \<Rightarrow> worker_run) \<Rightarrow> manager \<Rightarrow> string
     \<Rightarrow> outcome \<times> event list \<times> manager" where
  "execute_code parse dir_builtins exec_thread m code =
     (case is_safe_code parse dir_builtins code of
        Inl e \<Rightarrow> (Raised e, [], m)
      | Inr False \<Rightarrow> (Returned refused, [], m)
      | Inr True \<Rightarrow>
          (case exec_thread code of
             StillAlive captured \<Rightarrow>
               (Returned (timed_out (timeout m) captured), [ThreadStart, ThreadJoin (timeout m)], m)
           | Finished put elapsed \<Rightarrow>
               (case result_queue m @ (case put of None \<Rightarrow> [] | Some r \<Rightarrow> [r]) of
                  [] \<Rightarrow> (Blocked, [ThreadStart, ThreadJoin (timeout m), QueueGet], m)
                | r # q \<Rightarrow>
                    (Returned (r\<lparr>execution_time := Some (round3 elapsed)\<rparr>),
                     [ThreadStart, ThreadJoin (timeout m), QueueGet],
                     m\<lparr>result_queue := q\<rparr>))))"

section \<open>SnippetMatcher\<close>

fun first_line_loop :: "string \<Rightarrow> string list \<Rightarrow> rat" where
  "first_line_loop first_line [] = 0"
| "first_line_loop first_line (line # rest) =
     (if strip line = first_line then 1
      else if sublist first_line (strip line) then 4 / 5
      else first_line_loop first_line rest)"

definition first_line_match :: "string \<Rightarrow> string \<Rightarrow> rat" where
  "first_line_match target_code first_line = first_line_loop first_line (splitlines target_code)"

definition window_hits :: "string list \<Rightarrow> string list \<Rightarrow> nat \<Rightarrow> bool list" where
  \<comment> \<open>for the window at \<open>i\<close>: whether \<^verbatim>\<open>last_lines[j].strip() in target_lines[i + j].strip()\<close>, for each \<open>j\<close>\<close>
  "window_hits target_lines last_lines i =
     map (\<lambda>j. sublist (strip (last_lines ! j)) (strip (target_lines ! (i + j))))
       [0..<length last_lines]"

fun end_line_loop :: "string list \<Rightarrow> string list \<Rightarrow> nat list \<Rightarrow> rat" where
  "end_line_loop target_lines last_lines [] = 0"
| "end_line_loop target_lines last_lines (i # r) =
     (if list_all id (window_hits target_lines last_lines i) then 1
      else if list_ex id (window_hits target_lines last_lines i) then 4 / 5
      else end_line_loop target_lines last_lines r)"

definition end_line_match :: "string \<Rightarrow> string list \<Rightarrow> rat" where
  "end_line_match target_code last_lines =
     (let target_lines = splitlines target_code
      in end_line_loop target_lines last_lines
           [0..<nat (int (length target_lines) - int (length last_lines) + 1)])"

definition string_similarity :: "string \<Rightarrow> string \<Rightarrow> py_error + rat" where
  "string_similarity target_code snippet =
     (if sublist snippet target_code then Inr 1
      else if card (set (split snippet)) = 0 then Inl ZeroDivisionError
      else Inr (of_nat (card (set (split snippet) \<inter> set (split target_code)))
                / of_nat (card (set (split snippet)))))"

definition ast_similarity :: "(string \<Rightarrow> parse_result) \<Rightarrow> string \<Rightarrow> string \<Rightarrow> rat" where
  "ast_similarity parse target_code snippet =
     (case parse target_code of
        Parsed target_ast \<Rightarrow>
          (case parse snippet of
             Parsed snippet_ast \<Rightarrow>
               (if length (walk target_ast) = 0 then 0
                else of_nat (length (walk snippet_ast)) / of_nat (length (walk target_ast)))
           | SyntaxErr msg \<Rightarrow> 0
           | ParseRaised e \<Rightarrow> 0)
      | SyntaxErr msg \<Rightarrow> 0
      | ParseRaised e \<Rightarrow> 0)"

fun name_ids :: "node_kind list \<Rightarrow> string list" where
  "name_ids [] = []"
| "name_ids (Name ident # ks) = ident # name_ids ks"
| "name_ids (k # ks) = name_ids ks"

definition name_set :: "ast \<Rightarrow> string set" where
  \<comment> \<open>\<^verbatim>\<open>{node.id for node in ast.walk(tree) if isinstance(node, ast.Name)}\<close>\<close>
  "name_set tree = set (name_ids (map kind (walk tree)))"

definition keyword_match :: "(string \<Rightarrow> parse_result) \<Rightarrow> string \<Rightarrow> string \<Rightarrow> rat" where
  "keyword_match parse target_code snippet =
     (case parse snippet of
        Parsed snippet_ast \<Rightarrow>
          (case parse target_code of
             Parsed target_ast \<Rightarrow>
               (if card (name_set snippet_ast) = 0 then 0
                else of_nat (card (name_set snippet_ast \<inter> name_set target_ast))
                     / of_nat (card (name_set snippet_ast)))
           | SyntaxErr msg \<Rightarrow> 0
           | ParseRaised e \<Rightarrow> 0)
      | SyntaxErr msg \<Rightarrow> 0
      | ParseRaised e \<Rightarrow> 0)"

record scores =
  s_first_line_match :: rat
  s_string_match :: rat
  s_ast_similarity :: rat
  s_keyword_match :: rat
  s_end_line_match :: rat

definition calculate_matching_scores ::
  "(string \<Rightarrow> parse_result) \<Rightarrow> string \<Rightarrow> string \<Rightarrow> py_error + scores" where
  "calculate_matching_scores parse target_code snippet =
     (case splitlines snippet of
        [] \<Rightarrow> Inl IndexError
      | l # ls \<Rightarrow>
          (case string_similarity target_code snippet of
             Inl e \<Rightarrow> Inl e
           | Inr sm \<Rightarrow>
               Inr \<lparr>s_first_line_match = first_line_match target_code (strip l),
                    s_string_match = sm,
                    s_ast_similarity = ast_similarity parse target_code snippet,
                    s_keyword_match = keyword_match parse target_code snippet,
                    s_end_line_match = end_line_match target_code (last_n 3 (splitlines snippet))\<rparr>))"

definition calculate_confidence_score :: "scores \<Rightarrow> rat" where
  "calculate_confidence_score sc =
     s_first_line_match sc * (3 / 10) + s_string_match sc * (2 / 10)
     + s_ast_similarity sc * (2 / 10) + s_keyword_match sc * (1 / 10)
     + s_end_line_match sc * (2 / 10)"

text \<open>
  One round of the loop of \<^verbatim>\<open>_find_best_match\<close> at index \<open>i\<close>, on the triple
  \<^verbatim>\<open>(best_match_score, best_start, best_end)\<close>.
\<close>

definition match_step ::
  "string \<Rightarrow> string list \<Rightarrow> string list \<Rightarrow> string \<Rightarrow> rat \<times> int \<times> int \<Rightarrow> nat \<Rightarrow> rat \<times> int \<times> int" where
  "match_step target_code lines snippet_lines first_line best i =
     (if sublist first_line (strip (lines ! i)) then
        (let match_score =
               1 + of_nat (length (filter
                     (\<lambda>j. sublist (strip (snippet_lines ! j)) (strip (lines ! (i + j))))
                     [1..<min (length snippet_lines) (length lines - i)]))
                 + end_line_match target_code (last_n 3 snippet_lines)
         in if match_score > fst best
            then (match_score, int i + 1, int i + int (length snippet_lines))
            else best)
      else best)"

definition find_best_match :: "string \<Rightarrow> string \<Rightarrow> py_error + (int \<times> int)" where
  "find_best_match target_code snippet =
     (let lines = splitlines target_code; snippet_lines = splitlines snippet
      in case snippet_lines of
           [] \<Rightarrow> Inl IndexError
         | l # ls \<Rightarrow>
             Inr (snd (foldl (match_step target_code lines snippet_lines (strip l))
                         (0, - 1, - 1) [0..<length lines])))"

definition found :: "rat \<times> int \<times> int \<Rightarrow> bool" where
  \<comment> \<open>the loop has recorded a match: a score of at least 1 and one-based bounds in order\<close>
  "found b = (1 \<le> fst b \<and> 1 \<le> fst (snd b) \<and> fst (snd b) \<le> snd (snd b))"

record placement =
  file_path :: string
  confidence :: rat
  matched_code :: string
  start_line :: int
  end_line :: int

text \<open>
  The file system as \<^verbatim>\<open>check_folder_for_snippet\<close> reads it: whether a path exists, the
  names \<^verbatim>\<open>os.listdir\<close> gives in its order, and the decoded text of a file or the error of
  opening or decoding it.
\<close>

record fs_view =
  path_exists :: "string \<Rightarrow> bool"
  listdir :: "string \<Rightarrow> py_error + string list"
  read_text :: "string \<Rightarrow> py_error + string"

datatype fs_event = ListDir string | OpenRead string

definition path_join :: "string \<Rightarrow> string \<Rightarrow> string" where
  \<comment> \<open>\<^verbatim>\<open>os.path.join\<close> of two components, POSIX\<close>
  "path_join a b =
     (if prefix ''/'' b then b
      else if a = [] \<or> suffix ''/'' a then a @ b
      else a @ ''/'' @ b)"

text \<open>
  The body of the loop over the files, with its \<^verbatim>\<open>try\<close>: \<open>None\<close> when the file adds no
  placement (it is unreadable or blank, an exception is caught, the confidence is too
  low, or no match is found).
\<close>

definition process_file ::
  "(string \<Rightarrow> parse_result) \<Rightarrow> fs_view \<Rightarrow> string \<Rightarrow> string \<Rightarrow> placement option" where
  "process_file parse fs snippet py_file =
     (case read_text fs py_file of
        Inl e \<Rightarrow> None
      | Inr target_code \<Rightarrow>
          if strip target_code = [] then None
          else
            (case calculate_matching_scores parse target_code snippet of
               Inl e \<Rightarrow> None
             | Inr sc \<Rightarrow>
                 if calculate_confidence_score sc > 3 / 10 then
                   (case find_best_match target_code snippet of
                      Inl e \<Rightarrow> None
                    | Inr (match_start, match_end) \<Rightarrow>
                        (case find_best_match target_code
                                (join_lines (last_n 5 (splitlines snippet))) of
                           Inl e \<Rightarrow> None
                         | Inr (match_start_end, match_end_end) \<Rightarrow>
                             (let match_end' =
                                    (if match_end_end > match_end then match_end_end
                                     else match_end);
                                  matched =
                                    join_lines
                                      (py_slice (splitlines target_code) (match_start - 1) match_end')
                              in if match_start \<noteq> - 1
                                 then Some \<lparr>file_path = py_file,
                                            confidence = calculate_confidence_score sc,
                                            matched_code = matched,
                                            start_line = match_start,
                                            end_line = match_end'\<rparr>
                                 else None)))
                 else None))"

definition sorted_reverse :: "('a \<Rightarrow> rat) \<Rightarrow> 'a list \<Rightarrow> 'a list" where
  \<comment> \<open>\<^verbatim>\<open>sorted(xs, key=f, reverse=True)\<close>: the list is reversed, sorted stably, and reversed again\<close>
  "sorted_reverse f xs = rev (sort_key f (rev xs))"

definition check_folder_for_snippet ::
  "(string \<Rightarrow> parse_result) \<Rightarrow> fs_view \<Rightarrow> string \<Rightarrow> string
     \<Rightarrow> (py_error + placement list) \<times> fs_event list" where
  "check_folder_for_snippet parse fs folder snippet =
     (if \<not> path_exists fs folder then (Inl (ValueError (''Folder not found: '' @ folder)), [])
      else if strip snippet = [] then (Inl (ValueError ''Snippet cannot be empty''), [])
      else
        (case parse snippet of
           SyntaxErr msg \<Rightarrow> (Inl (ValueError (''Invalid Python syntax in snippet: '' @ msg)), [])
         | ParseRaised e \<Rightarrow> (Inl e, [])
         | Parsed tree \<Rightarrow>
             (case listdir fs folder of
                Inl e \<Rightarrow> (Inl e, [ListDir folder])
              | Inr names \<Rightarrow>
                  (let python_files = map (path_join folder) (filter (suffix ''.py'') names)
                   in (Inr (take 2 (sorted_reverse confidence
                              (List.map_filter (process_file parse fs snippet) python_files))),
                       ListDir folder # map OpenRead python_files)))))"

section \<open>SnippetUpdater\<close>

definition get_snippet_indentation :: "string \<Rightarrow> string" where
  "get_snippet_indentation snippet =
     (case splitlines snippet of
        [] \<Rightarrow> []
      | first_line # ls \<Rightarrow> take (length first_line - length (lstrip first_line)) first_line)"

definition adjust_line :: "string \<Rightarrow> string \<Rightarrow> string \<Rightarrow> string" where
  \<comment> \<open>what the loop of \<^verbatim>\<open>_adjust_snippet_indentation\<close> appends for one line\<close>
  "adjust_line target_indentation snippet_indentation line =
     (if strip line = [] then line
      else target_indentation @
           (if length line > length snippet_indentation
            then drop (length snippet_indentation) line
            else lstrip line))"

definition adjust_snippet_indentation :: "string \<Rightarrow> string \<Rightarrow> string \<Rightarrow> string" where
  "adjust_snippet_indentation snippet target_indentation snippet_indentation =
     (if splitlines snippet = [] then snippet
      else join_lines (map (adjust_line target_indentation snippet_indentation)
                        (splitlines snippet)))"

text \<open>
  The files that \<^verbatim>\<open>backup_and_write_code\<close> touches: a store from paths to regular files,
  each with its text and its metadata (mode bits and time stamps, as one value).
  Directories, links and permissions are outside this store.
\<close>

record file_entry =
  content :: string
  metadata :: nat

type_synonym filesystem = "string \<rightharpoonup> file_entry"

definition splitext_root :: "string \<Rightarrow> string" where
  \<comment> \<open>\<^verbatim>\<open>os.path.splitext(p)[0]\<close>, POSIX: the extension starts at the last dot of the last
      component, unless only dots stand before it in that component\<close>
  "splitext_root p =
     (let name = rev (takeWhile (\<lambda>c. c \<noteq> CHR ''/'') (rev p));
          dir = take (length p - length name) p;
          dots = takeWhile (\<lambda>c. c = CHR ''.'') name;
          rest = dropWhile (\<lambda>c. c = CHR ''.'') name
      in if CHR ''.'' \<in> set rest
         then dir @ dots @ rev (tl (dropWhile (\<lambda>c. c \<noteq> CHR ''.'') (rev rest)))
         else p)"

definition copy2 :: "string \<Rightarrow> string \<Rightarrow> filesystem \<Rightarrow> py_error + filesystem" where
  \<comment> \<open>\<^verbatim>\<open>shutil.copy2(src, dst)\<close>: text and metadata; the same file as source and
      destination is refused\<close>
  "copy2 src dst fs =
     (case fs src of
        None \<Rightarrow> Inl (FileNotFoundError src)
      | Some f \<Rightarrow> if src = dst then Inl (SameFileError src) else Inr (fs(dst \<mapsto> f)))"

definition write_text :: "(file_entry option \<Rightarrow> nat) \<Rightarrow> string \<Rightarrow> string \<Rightarrow> filesystem \<Rightarrow> filesystem" where
  \<comment> \<open>\<^verbatim>\<open>open(path, 'w').write(text)\<close>; \<open>stamp\<close> gives the metadata of the written file\<close>
  "write_text stamp path text fs = fs(path \<mapsto> \<lparr>content = text, metadata = stamp (fs path)\<rparr>)"

definition backup_and_write_code ::
  "(file_entry option \<Rightarrow> nat) \<Rightarrow> filesystem \<Rightarrow> string \<Rightarrow> string \<Rightarrow> (py_error + string) \<times> filesystem" where
  "backup_and_write_code stamp fs path updated_code =
     (if fs path = None
      then (Inl (FileNotFoundError (''The file '' @ path @ '' does not exist.'')), fs)
      else
        (let backup_path = splitext_root path @ ''.old''
         in case copy2 path backup_path fs of
              Inl e \<Rightarrow> (Inl e, fs)
            | Inr fs1 \<Rightarrow> (Inr backup_path, write_text stamp path updated_code fs1)))"

section \<open>Sample inputs\<close>

text \<open>
  The trees that \<^verbatim>\<open>ast.parse\<close> builds for the sample texts used below, written with the
  node kinds above (a module, a statement, an alias, a constant or an expression
  context is \<^const>\<open>Other\<close>).  A text outside the table stands for one that the parser
  refuses.
\<close>

definition example_trees :: "(string \<times> ast) list" where
  "example_trees =
     [(''from . import x\<newline>import os'',
         Node Other [Node (ImportFrom None) [Node Other []], Node (Import [''os'']) [Node Other []]]),
      (''import os\<newline>from . import x'',
         Node Other [Node (Import [''os'']) [Node Other []], Node (ImportFrom None) [Node Other []]]),
      (''from . import x'',
         Node Other [Node (ImportFrom None) [Node Other []]]),
      (''import os'',
         Node Other [Node (Import [''os'']) [Node Other []]]),
      (''while True: pass'',
         Node Other [Node Other [Node Other [], Node Other []]]),
      (''x'',
         Node Other [Node Other [Node (Name ''x'') [Node Other []]]]),
      (''x\<newline>x\<newline>x'',
         Node Other [Node Other [Node (Name ''x'') [Node Other []]],
                     Node Other [Node (Name ''x'') [Node Other []]],
                     Node Other [Node (Name ''x'') [Node Other []]]]),
      (''y = x'',
         Node Other [Node Other [Node (Name ''y'') [Node Other []],
                                 Node (Name ''x'') [Node Other []]]]),
      (''z = 0\<newline>y = x'',
         Node Other [Node Other [Node (Name ''z'') [Node Other []], Node Other []],
                     Node Other [Node (Name ''y'') [Node Other []],
                                 Node (Name ''x'') [Node Other []]]])]"

definition example_parse :: "string \<Rightarrow> parse_result" where
  "example_parse s =
     (case map_of example_trees s of
        Some t \<Rightarrow> Parsed t
      | None \<Rightarrow> SyntaxErr ''invalid syntax'')"

definition example_builtins :: "string list" where
  \<comment> \<open>some of the names of \<^verbatim>\<open>dir(builtins)\<close>\<close>
  "example_builtins = safe_builtins @ [''eval'', ''exec'', ''open'', ''compile'', ''input'']"

definition example_manager :: manager where
  "example_manager = \<lparr>timeout = 1, result_queue = []\<rparr>"

definition example_fs :: fs_view where
  "example_fs =
     \<lparr>path_exists = (\<lambda>p. p = ''proj''),
      listdir = (\<lambda>p. if p = ''proj'' then Inr [''a.py'', ''notes.txt'', ''b.py'']
                      else Inl (FileNotFoundError p)),
      read_text = (\<lambda>p. if p = ''proj/a.py'' then Inr ''z = 0\<newline>y = x''
                        else if p = ''proj/b.py'' then Inr ''y = x''
                        else Inl (FileNotFoundError p))\<rparr>"

definition example_store :: filesystem where
  "example_store =
     [''a.py'' \<mapsto> \<lparr>content = ''y = 0'', metadata = 7\<rparr>,
      ''notes.old'' \<mapsto> \<lparr>content = ''v1'', metadata = 3\<rparr>]"

definition example_stamp :: "file_entry option \<Rightarrow> nat" where
  "example_stamp f = 9"

section \<open>The safety check and the execution\<close>

lemma check_node_raises:
  "check_node db k = Raise e \<Longrightarrow> e = AttributeError \<and> k = ImportFrom None"
  by (cases "(db, k)" rule: check_node.cases) (auto split: if_splits)

lemma check_nodes_reject:
  "ImportFrom None \<notin> set ks \<Longrightarrow> list_ex (\<lambda>k. check_node db k = ReturnFalse) ks
    \<Longrightarrow> check_nodes db ks = Inr False"
  by (induction ks) (auto split: verdict.splits dest: check_node_raises)

lemma check_nodes_raise:
  "\<not> list_ex (\<lambda>k. check_node db k = ReturnFalse) pre
    \<Longrightarrow> check_nodes db (pre @ ImportFrom None # post) = Inl AttributeError"
  by (induction pre) (auto split: verdict.splits dest: check_node_raises)

lemma disallowed_import_rejected:
  "top_module name \<notin> set allowed_modules \<Longrightarrow> name \<in> set names
    \<Longrightarrow> check_node db (Import names) = ReturnFalse"
  by (auto simp: list_ex_iff)

text \<open>
  A disallowed import is refused, with no output, no elapsed time and no thread started,
  in every text none of whose import-from nodes lacks its module.
\<close>

lemma execute_code_refuses_import:
  assumes "parse code = Parsed tree"
    and "Import names \<in> set (map kind (walk tree))" and "name \<in> set names"
    and "top_module name \<notin> set allowed_modules"
    and "ImportFrom None \<notin> set (map kind (walk tree))"
  shows "execute_code parse db exec_thread m code = (Returned refused, [], m)"
proof -
  from assms(2-4) have "list_ex (\<lambda>k. check_node db k = ReturnFalse) (map kind (walk tree))"
    unfolding list_ex_iff using disallowed_import_rejected by blast
  with assms(5) have "check_nodes db (map kind (walk tree)) = Inr False"
    by (rule check_nodes_reject)
  with assms(1) show ?thesis by (simp add: execute_code_def is_safe_code_def)
qed

text \<open>
  C1.  The claim: every snippet with an import whose top-level module is not allowed is
  refused by \<^verbatim>\<open>execute_code\<close> with \<^verbatim>\<open>success=False\<close>, empty output and zero time.
  On \<^verbatim>\<open>from . import x\<close> followed by \<^verbatim>\<open>import os\<close> the walk meets the import-from node
  first, \<^verbatim>\<open>node.module\<close> is \<^verbatim>\<open>None\<close>, and \<^verbatim>\<open>execute_code\<close> raises \<^verbatim>\<open>AttributeError\<close>
  instead of returning the refusal.
\<close>

theorem execute_code_raises_before_disallowed_import:
  "execute_code example_parse example_builtins exec_thread m ''from . import x\<newline>import os''
     = (Raised AttributeError, [], m)"
  by (simp add: execute_code_def is_safe_code_def example_parse_def example_trees_def walk_def)

text \<open>
  C2.  When the vetted snippet's worker is still alive after the join with the
  configured timeout, \<^verbatim>\<open>execute_code\<close> returns a result with \<^verbatim>\<open>success=False\<close>, the
  time-out message, the output captured so far and \<^verbatim>\<open>execution_time\<close> equal to the
  configured timeout; the parent has started the thread and joined it once, and does
  not read the queue.
\<close>

theorem execute_code_timeout:
  assumes "is_safe_code parse db code = Inr True"
    and "exec_thread code = StillAlive captured"
  shows "\<exists>r. execute_code parse db exec_thread m code
             = (Returned r, [ThreadStart, ThreadJoin (timeout m)], m)
           \<and> \<not> success r
           \<and> output_text r = captured
           \<and> error_text r = ''Execution timed out after '' @ str_int (timeout m) @ '' seconds''
           \<and> execution_time r = Some (of_int (timeout m))"
  using assms by (simp add: execute_code_def timed_out_def)

theorem execute_code_timeout_witness:
  "is_safe_code example_parse example_builtins ''while True: pass'' = Inr True
   \<and> (\<exists>r. execute_code example_parse example_builtins (\<lambda>c. StillAlive []) example_manager
               ''while True: pass''
             = (Returned r, [ThreadStart, ThreadJoin 1], example_manager)
           \<and> \<not> success r
           \<and> output_text r = []
           \<and> error_text r = ''Execution timed out after 1 seconds''
           \<and> execution_time r = Some 1)"
proof -
  have s: "is_safe_code example_parse example_builtins ''while True: pass'' = Inr True"
    by (simp add: is_safe_code_def example_parse_def example_trees_def walk_def)
  have t: "(\<lambda>c::string. StillAlive []) ''while True: pass'' = StillAlive []" by simp
  have n: "str_int 1 = ''1''" by code_simp
  from execute_code_timeout [OF s t, of example_manager] s n show ?thesis
    by (simp add: example_manager_def)
qed

text \<open>
  C5.  A snippet that the parser refuses with a syntax error is rejected by
  \<^verbatim>\<open>check_folder_for_snippet\<close> with a \<^verbatim>\<open>ValueError\<close> before the folder is listed or any
  file is opened, and \<^verbatim>\<open>execute_code\<close> returns the refusal with \<^verbatim>\<open>success=False\<close> and
  zero \<^verbatim>\<open>execution_time\<close> without starting a thread.
\<close>

theorem syntax_error_refused:
  assumes "parse snippet = SyntaxErr msg"
  shows "(\<exists>text. check_folder_for_snippet parse fs folder snippet = (Inl (ValueError text), []))
       \<and> (\<exists>r. execute_code parse db exec_thread m snippet = (Returned r, [], m)
              \<and> \<not> success r \<and> output_text r = [] \<and> execution_time r = Some 0)"
  using assms
  by (simp add: check_folder_for_snippet_def execute_code_def is_safe_code_def refused_def)

theorem syntax_error_refused_witness:
  "example_parse ''def'' = SyntaxErr ''invalid syntax''
   \<and> (\<exists>text. check_folder_for_snippet example_parse example_fs ''proj'' ''def''
                = (Inl (ValueError text), []))
   \<and> (\<exists>r. execute_code example_parse example_builtins (\<lambda>c. StillAlive []) example_manager ''def''
               = (Returned r, [], example_manager)
          \<and> \<not> success r \<and> output_text r = [] \<and> execution_time r = Some 0)"
proof -
  have p: "example_parse ''def'' = SyntaxErr ''invalid syntax''"
    by (simp add: example_parse_def example_trees_def)
  from syntax_error_refused [where parse = example_parse and snippet = "''def''", OF p] p
  show ?thesis by blast
qed

text \<open>
  C10.  The claim: every snippet that parses and contains a from-import without a
  module name makes \<^verbatim>\<open>_is_safe_code\<close> raise.  The walk stops at the first node it
  rejects: on \<^verbatim>\<open>import os\<close> followed by \<^verbatim>\<open>from . import x\<close> the import of \<^verbatim>\<open>os\<close> comes
  first and the verdict is \<^verbatim>\<open>False\<close>, so \<^verbatim>\<open>execute_code\<close> returns the refusal.
\<close>

theorem relative_import_after_rejected_node_returns:
  "example_parse ''import os\<newline>from . import x'' =
      Parsed (Node Other [Node (Import [''os'']) [Node Other []],
                          Node (ImportFrom None) [Node Other []]])
   \<and> ImportFrom None
       \<in> set (map kind (walk (Node Other [Node (Import [''os'']) [Node Other []],
                                           Node (ImportFrom None) [Node Other []]])))
   \<and> is_safe_code example_parse example_builtins ''import os\<newline>from . import x'' = Inr False
   \<and> execute_code example_parse example_builtins (\<lambda>c. StillAlive []) example_manager
        ''import os\<newline>from . import x''
      = (Returned refused, [], example_manager)"
  by (simp add: execute_code_def is_safe_code_def example_parse_def example_trees_def walk_def
        top_module_def allowed_modules_def)

lemma check_nodes_reject_first:
  "ImportFrom None \<notin> set pre \<Longrightarrow> check_node db k = ReturnFalse
    \<Longrightarrow> check_nodes db (pre @ k # post) = Inr False"
  by (induction pre) (auto split: verdict.splits dest: check_node_raises)

text \<open>
  C10, amended.  For a snippet that parses: when an import-from node without a module
  name is in its walk and no node before it in the walk is rejected, \<^verbatim>\<open>_is_safe_code\<close>
  raises \<^verbatim>\<open>AttributeError\<close> and \<^verbatim>\<open>execute_code\<close> propagates it, with no thread started;
  when a rejected node is in its walk and no import-from node without a module name
  comes before it, \<^verbatim>\<open>_is_safe_code\<close> returns \<^verbatim>\<open>False\<close> and \<^verbatim>\<open>execute_code\<close> returns the
  refusal, with no thread started.
\<close>

theorem relative_import_raises:
  assumes "parse code = Parsed tree"
  shows "(map kind (walk tree) = pre @ ImportFrom None # post
            \<and> \<not> list_ex (\<lambda>k. check_node db k = ReturnFalse) pre
          \<longrightarrow> is_safe_code parse db code = Inl AttributeError
            \<and> execute_code parse db exec_thread m code = (Raised AttributeError, [], m))
       \<and> (map kind (walk tree) = pre' @ k # post'
            \<and> check_node db k = ReturnFalse
            \<and> ImportFrom None \<notin> set pre'
          \<longrightarrow> is_safe_code parse db code = Inr False
            \<and> execute_code parse db exec_thread m code = (Returned refused, [], m))"
proof (intro conjI impI)
  assume a: "map kind (walk tree) = pre @ ImportFrom None # post
            \<and> \<not> list_ex (\<lambda>k. check_node db k = ReturnFalse) pre"
  then have "check_nodes db (map kind (walk tree)) = Inl AttributeError"
    using check_nodes_raise [of db pre post] by simp
  with assms show "is_safe_code parse db code = Inl AttributeError"
    by (simp add: is_safe_code_def)
  then show "execute_code parse db exec_thread m code = (Raised AttributeError, [], m)"
    by (simp add: execute_code_def)
next
  assume b: "map kind (walk tree) = pre' @ k # post'
            \<and> check_node db k = ReturnFalse
            \<and> ImportFrom None \<notin> set pre'"
  then have "check_nodes db (map kind (walk tree)) = Inr False"
    using check_nodes_reject_first [of pre' db k post'] by simp
  with assms show "is_safe_code parse db code = Inr False"
    by (simp add: is_safe_code_def)
  then show "execute_code parse db exec_thread m code = (Returned refused, [], m)"
    by (simp add: execute_code_def)
qed

theorem relative_import_raises_witness:
  "example_parse ''from . import x'' = Parsed (Node Other [Node (ImportFrom None) [Node Other []]])
   \<and> map kind (walk (Node Other [Node (ImportFrom None) [Node Other []]]))
       = [Other] @ ImportFrom None # [Other]
   \<and> \<not> list_ex (\<lambda>k. check_node example_builtins k = ReturnFalse) [Other]
   \<and> is_safe_code example_parse example_builtins ''from . import x'' = Inl AttributeError
   \<and> execute_code example_parse example_builtins (\<lambda>c. StillAlive []) example_manager
        ''from . import x''
      = (Raised AttributeError, [], example_manager)
   \<and> example_parse ''import os\<newline>from . import x'' =
        Parsed (Node Other [Node (Import [''os'']) [Node Other []],
                            Node (ImportFrom None) [Node Other []]])
   \<and> map kind (walk (Node Other [Node (Import [''os'']) [Node Other []],
                                 Node (ImportFrom None) [Node Other []]]))
       = [Other] @ Import [''os''] # [ImportFrom None, Other, Other]
   \<and> check_node example_builtins (Import [''os'']) = ReturnFalse
   \<and> ImportFrom None \<notin> set [Other]
   \<and> is_safe_code example_parse example_builtins ''import os\<newline>from . import x'' = Inr False
   \<and> execute_code example_parse example_builtins (\<lambda>c. StillAlive []) example_manager
        ''import os\<newline>from . import x''
      = (Returned refused, [], example_manager)"
proof -
  have p: "example_parse ''from . import x''
             = Parsed (Node Other [Node (ImportFrom None) [Node Other []]])"
    by (simp add: example_parse_def example_trees_def)
  have w: "map kind (walk (Node Other [Node (ImportFrom None) [Node Other []]]))
             = [Other] @ ImportFrom None # [Other]"
    by (simp add: walk_def)
  have n: "\<not> list_ex (\<lambda>k. check_node example_builtins k = ReturnFalse) [Other]" by simp
  have p': "example_parse ''import os\<newline>from . import x'' =
        Parsed (Node Other [Node (Import [''os'']) [Node Other []],
                            Node (ImportFrom None) [Node Other []]])"
    by (simp add: example_parse_def example_trees_def)
  have w': "map kind (walk (Node Other [Node (Import [''os'']) [Node Other []],
                                 Node (ImportFrom None) [Node Other []]]))
       = [Other] @ Import [''os''] # [ImportFrom None, Other, Other]"
    by (simp add: walk_def)
  have r: "check_node example_builtins (Import [''os'']) = ReturnFalse"
    by (simp add: top_module_def allowed_modules_def)
  have i: "ImportFrom None \<notin> set [Other]" by simp
  note t1 = relative_import_raises [where parse = example_parse and code = "''from . import x''"
      and db = example_builtins and pre = "[Other]" and post = "[Other]"
      and exec_thread = "\<lambda>c. StillAlive []" and m = example_manager, OF p, THEN conjunct1]
  note t2 = relative_import_raises [where parse = example_parse
      and code = "''import os\<newline>from . import x''"
      and db = example_builtins and pre' = "[Other]" and k = "Import [''os'']"
      and post' = "[ImportFrom None, Other, Other]"
      and exec_thread = "\<lambda>c. StillAlive []" and m = example_manager, OF p', THEN conjunct2]
  from t1 w n have c1: "is_safe_code example_parse example_builtins ''from . import x'' = Inl AttributeError
   \<and> execute_code example_parse example_builtins (\<lambda>c. StillAlive []) example_manager
        ''from . import x''
      = (Raised AttributeError, [], example_manager)" by blast
  from t2 w' r i have c2: "is_safe_code example_parse example_builtins ''import os\<newline>from . import x'' = Inr False
   \<and> execute_code example_parse example_builtins (\<lambda>c. StillAlive []) example_manager
        ''import os\<newline>from . import x''
      = (Returned refused, [], example_manager)" by blast
  from p w n c1 p' w' r i c2 show ?thesis by (intro conjI) blast+
qed

section \<open>Indentation\<close>

lemma strip_empty_iff: "strip s = [] \<longleftrightarrow> (\<forall>c\<in>set s. is_space c)"
proof
  assume e: "strip s = []"
  show "\<forall>c\<in>set s. is_space c"
  proof (cases "dropWhile is_space s = []")
    case True
    then show ?thesis by (simp add: dropWhile_eq_Nil_conv)
  next
    case False
    then have "\<not> is_space (hd (dropWhile is_space s))" by (rule hd_dropWhile)
    moreover from e have "\<forall>c\<in>set (dropWhile is_space s). is_space c"
      by (simp add: strip_def rstrip_def lstrip_def dropWhile_eq_Nil_conv)
    ultimately show ?thesis using False by (metis hd_in_set)
  qed
next
  assume "\<forall>c\<in>set s. is_space c"
  then show "strip s = []"
    by (auto simp: strip_def rstrip_def lstrip_def dest: set_dropWhileD)
qed

lemma take_length_dropWhile: "take (length s - length (dropWhile P s)) s = takeWhile P s"
proof -
  have "length s - length (dropWhile P s) = length (takeWhile P s)"
    by (metis add_diff_cancel_right' length_append takeWhile_dropWhile_id)
  then show ?thesis
    by (metis append_eq_conv_conj takeWhile_dropWhile_id)
qed

lemma snippet_indentation_spaces: "\<forall>c\<in>set (get_snippet_indentation snippet). is_space c"
  by (auto simp: get_snippet_indentation_def lstrip_def take_length_dropWhile
      split: list.splits dest: set_takeWhileD)

text \<open>
  C9.  The claim: with the target indentation equal to the indentation of the snippet's
  first line, every non-blank line of the snippet is left unchanged.  A non-blank line
  that is not longer than that indentation takes the other branch: it is stripped on
  the left and prefixed with the target indentation, so the line \<^verbatim>\<open>b\<close> after a first
  line indented by two spaces becomes \<^verbatim>\<open>b\<close> with two spaces before it.
\<close>

theorem adjust_restores_indentation_of_short_line:
  "get_snippet_indentation ''  a\<newline>b'' = ''  ''
   \<and> splitlines ''  a\<newline>b'' = [''  a'', ''b'']
   \<and> strip ''b'' \<noteq> []
   \<and> adjust_snippet_indentation ''  a\<newline>b'' ''  '' ''  '' = ''  a\<newline>  b''
   \<and> splitlines ''  a\<newline>  b'' = [''  a'', ''  b'']"
  by code_simp

text \<open>
  C9, amended.  With the target indentation equal to the indentation of the snippet's
  first line, every non-blank line of the snippet that starts with that indentation is
  unchanged in the adjusted lines, which the function joins with newlines.
\<close>

theorem adjust_keeps_indented_lines:
  assumes "i < length (splitlines snippet)"
    and "strip (splitlines snippet ! i) \<noteq> []"
    and "prefix (get_snippet_indentation snippet) (splitlines snippet ! i)"
  shows "adjust_snippet_indentation snippet (get_snippet_indentation snippet)
             (get_snippet_indentation snippet)
           = join_lines (map (adjust_line (get_snippet_indentation snippet)
                                (get_snippet_indentation snippet)) (splitlines snippet))
       \<and> map (adjust_line (get_snippet_indentation snippet) (get_snippet_indentation snippet))
             (splitlines snippet) ! i
           = splitlines snippet ! i"
proof -
  let ?si = "get_snippet_indentation snippet"
  let ?line = "splitlines snippet ! i"
  from assms(3) obtain r where r: "?line = ?si @ r" by (auto simp: prefix_def)
  have "r \<noteq> []"
  proof
    assume "r = []"
    with r snippet_indentation_spaces [of snippet] have "\<forall>c\<in>set ?line. is_space c" by simp
    with assms(2) show False by (simp add: strip_empty_iff)
  qed
  with r have "length ?line > length ?si" by simp
  with r assms(2) have "adjust_line ?si ?si ?line = ?line" by (simp add: adjust_line_def)
  moreover from assms(1) have "splitlines snippet \<noteq> []" by auto
  ultimately show ?thesis using assms(1) by (simp add: adjust_snippet_indentation_def)
qed

theorem adjust_keeps_indented_lines_witness:
  "(1::nat) < length (splitlines ''  a\<newline>  b'')
   \<and> strip (splitlines ''  a\<newline>  b'' ! 1) \<noteq> []
   \<and> prefix (get_snippet_indentation ''  a\<newline>  b'') (splitlines ''  a\<newline>  b'' ! 1)
   \<and> map (adjust_line (get_snippet_indentation ''  a\<newline>  b'')
             (get_snippet_indentation ''  a\<newline>  b'')) (splitlines ''  a\<newline>  b'') ! 1
       = splitlines ''  a\<newline>  b'' ! 1
   \<and> splitlines ''  a\<newline>  b'' ! 1 = ''  b''
   \<and> adjust_snippet_indentation ''  a\<newline>  b'' ''  '' ''  '' = ''  a\<newline>  b''"
proof -
  have l: "splitlines ''  a\<newline>  b'' = [''  a'', ''  b'']" by code_simp
  have g: "get_snippet_indentation ''  a\<newline>  b'' = ''  ''" by code_simp
  have a: "(1::nat) < length (splitlines ''  a\<newline>  b'')" by (simp add: l)
  have b: "strip (splitlines ''  a\<newline>  b'' ! 1) \<noteq> []" unfolding l by code_simp
  have c: "prefix (get_snippet_indentation ''  a\<newline>  b'') (splitlines ''  a\<newline>  b'' ! 1)"
    by (simp add: l g)
  have d: "splitlines ''  a\<newline>  b'' ! 1 = ''  b''" by (simp add: l)
  have e: "adjust_snippet_indentation ''  a\<newline>  b'' ''  '' ''  '' = ''  a\<newline>  b''"
    by code_simp
  from adjust_keeps_indented_lines [OF a b c] a b c d e show ?thesis by blast
qed

section \<open>Backup and write\<close>

text \<open>
  When the target does not exist, \<^verbatim>\<open>backup_and_write_code\<close> raises
  \<^verbatim>\<open>FileNotFoundError\<close> and the files are unchanged.  When it exists and the backup
  path differs from it, the copy comes first: after it the backup path holds the
  original text and metadata and the target is still the original; then the target's
  text is overwritten with the new content, the backup and every other file stay as
  they are, and the backup path is returned.
\<close>

lemma backup_before_overwrite:
  "(fs path = None \<longrightarrow>
      backup_and_write_code stamp fs path code
        = (Inl (FileNotFoundError (''The file '' @ path @ '' does not exist.'')), fs))
   \<and> (fs path = Some f \<and> splitext_root path @ ''.old'' \<noteq> path \<longrightarrow>
        (\<exists>fs1 fs2.
            copy2 path (splitext_root path @ ''.old'') fs = Inr fs1
          \<and> fs1 (splitext_root path @ ''.old'') = Some f
          \<and> fs1 path = Some f
          \<and> fs2 = write_text stamp path code fs1
          \<and> backup_and_write_code stamp fs path code = (Inr (splitext_root path @ ''.old''), fs2)
          \<and> map_option content (fs2 path) = Some code
          \<and> fs2 (splitext_root path @ ''.old'') = Some f
          \<and> (\<forall>q. q \<noteq> path \<and> q \<noteq> splitext_root path @ ''.old'' \<longrightarrow> fs2 q = fs q)))"
  by (auto simp: backup_and_write_code_def copy2_def write_text_def Let_def)

text \<open>
  C3.  The claim: when the target does not exist a file-not-found error is raised and
  nothing changes; otherwise a backup copy of the original is written before the target
  is overwritten with the new content, and the backup path is returned.  The backup
  path is the target path with its extension replaced by \<^verbatim>\<open>.old\<close>.  For the existing
  target \<^verbatim>\<open>notes.old\<close> the backup path is the target itself: \<^verbatim>\<open>shutil.copy2\<close> raises
  \<^verbatim>\<open>SameFileError\<close>, which \<^verbatim>\<open>backup_and_write_code\<close> does not catch, so no backup is
  written, the target keeps its old content and no path is returned.
\<close>

theorem backup_of_old_file_refused:
  "example_store ''notes.old''  = Some \<lparr>content = ''v1'', metadata = 3\<rparr>
   \<and> splitext_root ''notes.old'' @ ''.old'' = ''notes.old''
   \<and> backup_and_write_code example_stamp example_store ''notes.old'' ''v2''
       = (Inl (SameFileError ''notes.old''), example_store)"
proof -
  have r: "splitext_root ''notes.old'' = ''notes''" by code_simp
  have e: "example_store ''notes.old''  = Some \<lparr>content = ''v1'', metadata = 3\<rparr>"
    by (simp add: example_store_def)
  show ?thesis
    by (simp add: backup_and_write_code_def copy2_def r e)
qed

section \<open>Match signals and confidence\<close>

lemma end_line_loop_range:
  "0 \<le> end_line_loop tls lls is \<and> end_line_loop tls lls is \<le> 1"
  by (induction "is") auto

lemma end_line_match_range: "0 \<le> end_line_match t lls \<and> end_line_match t lls \<le> 1"
  by (simp add: end_line_match_def Let_def end_line_loop_range)

lemma first_line_loop_range: "0 \<le> first_line_loop fl lines \<and> first_line_loop fl lines \<le> 1"
  by (induction lines) auto

lemma first_line_match_range: "0 \<le> first_line_match t fl \<and> first_line_match t fl \<le> 1"
  by (simp add: first_line_match_def first_line_loop_range)

lemma ratio_range:
  fixes a b :: nat
  assumes "a \<le> b" and "0 < b"
  shows "(0::rat) \<le> of_nat a / of_nat b \<and> (of_nat a :: rat) / of_nat b \<le> 1"
  using assms by (simp add: divide_le_eq)

lemma card_inter_le: "card (set xs \<inter> B) \<le> card (set xs)"
  by (rule card_mono) auto

lemma string_similarity_range:
  assumes "string_similarity t s = Inr v"
  shows "0 \<le> v \<and> v \<le> 1"
proof (cases "sublist s t")
  case True
  with assms show ?thesis by (simp add: string_similarity_def)
next
  case False
  with assms have c: "0 < card (set (split s))"
    and v: "v = of_nat (card (set (split s) \<inter> set (split t))) / of_nat (card (set (split s)))"
    by (auto simp: string_similarity_def split: if_splits)
  from ratio_range [OF card_inter_le c] show ?thesis unfolding v .
qed

lemma keyword_match_range: "0 \<le> keyword_match parse t s \<and> keyword_match parse t s \<le> 1"
proof -
  have "0 \<le> (of_nat (card (name_set a \<inter> name_set b)) :: rat) / of_nat (card (name_set a))
        \<and> (of_nat (card (name_set a \<inter> name_set b)) :: rat) / of_nat (card (name_set a)) \<le> 1"
    if "card (name_set a) \<noteq> 0" for a b
  proof -
    from that have "0 < card (name_set a)" by simp
    moreover have "card (name_set a \<inter> name_set b) \<le> card (name_set a)"
      unfolding name_set_def by (rule card_inter_le)
    ultimately show ?thesis by (simp add: ratio_range)
  qed
  then show ?thesis
    by (auto simp: keyword_match_def split: parse_result.splits)
qed

lemma walk_nonempty: "0 < length (walk t)"
  by (simp add: walk_def)

lemma ast_similarity_nonneg: "0 \<le> ast_similarity parse t s"
  by (auto simp: ast_similarity_def split: parse_result.splits)

lemma ast_similarity_ratio:
  "parse s = Parsed ts \<Longrightarrow> parse t = Parsed tt
    \<Longrightarrow> ast_similarity parse t s = of_nat (length (walk ts)) / of_nat (length (walk tt))"
  using walk_nonempty [of tt] by (simp add: ast_similarity_def)

lemma ast_similarity_le_1_iff:
  "ast_similarity parse t s \<le> 1 \<longleftrightarrow>
     (\<forall>ts tt. parse s = Parsed ts \<and> parse t = Parsed tt \<longrightarrow> length (walk ts) \<le> length (walk tt))"
  using walk_nonempty
  by (auto simp: ast_similarity_def divide_le_eq split: parse_result.splits)

lemma split_nonempty: "strip s \<noteq> [] \<Longrightarrow> split s \<noteq> []"
proof -
  assume "strip s \<noteq> []"
  then have "\<not> (\<forall>c\<in>set s. is_space c)" by (simp add: strip_empty_iff)
  then have "dropWhile is_space s \<noteq> []" by (simp add: dropWhile_eq_Nil_conv)
  then show ?thesis by (subst split.simps) simp
qed

lemma splitlines_nonempty: "s \<noteq> [] \<Longrightarrow> splitlines s \<noteq> []"
  by (subst splitlines.simps) simp

lemma strip_Nil: "strip [] = []"
  by (simp add: strip_def rstrip_def lstrip_def)

lemma scores_computed:
  assumes "strip snippet \<noteq> []"
  shows "\<exists>l ls sm. splitlines snippet = l # ls \<and> string_similarity t snippet = Inr sm
     \<and> calculate_matching_scores parse t snippet =
         Inr \<lparr>s_first_line_match = first_line_match t (strip l),
              s_string_match = sm,
              s_ast_similarity = ast_similarity parse t snippet,
              s_keyword_match = keyword_match parse t snippet,
              s_end_line_match = end_line_match t (last_n 3 (splitlines snippet))\<rparr>"
proof -
  from assms have "snippet \<noteq> []" using strip_Nil by blast
  then obtain l ls where l: "splitlines snippet = l # ls"
    using splitlines_nonempty by (cases "splitlines snippet") auto
  from assms have "split snippet \<noteq> []" by (rule split_nonempty)
  then have "card (set (split snippet)) \<noteq> 0" by simp
  then have "\<exists>sm. string_similarity t snippet = Inr sm"
    by (simp add: string_similarity_def)
  then obtain sm where sm: "string_similarity t snippet = Inr sm" ..
  with l show ?thesis by (simp add: calculate_matching_scores_def)
qed

text \<open>
  C4.  The claim: each of the five signals lies in the unit interval, and so does the
  weighted confidence.  The syntax-tree signal is the number of nodes of the snippet
  divided by the number of nodes of the target: for the target \<^verbatim>\<open>x\<close> (4 nodes) and a
  snippet of three lines \<^verbatim>\<open>x\<close> (10 nodes) it is 5/2, and the confidence is 11/10.
\<close>

theorem ast_similarity_exceeds_one:
  "calculate_matching_scores example_parse ''x'' ''x\<newline>x\<newline>x''
     = Inr \<lparr>s_first_line_match = 1, s_string_match = 1, s_ast_similarity = 5 / 2,
            s_keyword_match = 1, s_end_line_match = 0\<rparr>
   \<and> calculate_confidence_score
        \<lparr>s_first_line_match = 1, s_string_match = 1, s_ast_similarity = 5 / 2,
         s_keyword_match = 1, s_end_line_match = 0\<rparr> = 11 / 10
   \<and> (1::rat) < 5 / 2 \<and> (1::rat) < 11 / 10"
proof -
  have a: "calculate_matching_scores example_parse ''x'' ''x\<newline>x\<newline>x''
     = Inr \<lparr>s_first_line_match = 1, s_string_match = 1, s_ast_similarity = 5 / 2,
            s_keyword_match = 1, s_end_line_match = 0\<rparr>"
    by code_simp
  have b: "calculate_confidence_score
        \<lparr>s_first_line_match = 1, s_string_match = 1, s_ast_similarity = 5 / 2,
         s_keyword_match = 1, s_end_line_match = 0\<rparr> = 11 / 10"
    by (simp add: calculate_confidence_score_def)
  from a b show ?thesis by simp
qed

text \<open>
  C4, amended.  For every snippet with a non-blank character and every target text the
  scores are computed; the first-line, string, keyword and end-line signals lie in the
  unit interval; the syntax-tree signal is not negative, and it is at most 1 exactly
  when the snippet's tree has no more nodes than the target's whenever both parse.
  The weighted confidence is not negative and at most 4/5 plus a fifth of the
  syntax-tree signal, so it lies in the unit interval whenever that signal is at most 1.
\<close>

theorem signals_in_range:
  assumes "strip snippet \<noteq> []"
  shows "\<exists>sc. calculate_matching_scores parse target_code snippet = Inr sc
     \<and> 0 \<le> s_first_line_match sc \<and> s_first_line_match sc \<le> 1
     \<and> 0 \<le> s_string_match sc \<and> s_string_match sc \<le> 1
     \<and> 0 \<le> s_keyword_match sc \<and> s_keyword_match sc \<le> 1
     \<and> 0 \<le> s_end_line_match sc \<and> s_end_line_match sc \<le> 1
     \<and> 0 \<le> s_ast_similarity sc
     \<and> (s_ast_similarity sc \<le> 1 \<longleftrightarrow>
          (\<forall>ts tt. parse snippet = Parsed ts \<and> parse target_code = Parsed tt
             \<longrightarrow> length (walk ts) \<le> length (walk tt)))
     \<and> 0 \<le> calculate_confidence_score sc
     \<and> calculate_confidence_score sc \<le> 4 / 5 + s_ast_similarity sc * (2 / 10)
     \<and> (s_ast_similarity sc \<le> 1 \<longrightarrow> calculate_confidence_score sc \<le> 1)"
proof -
  from scores_computed [OF assms, of target_code parse]
  obtain l ls sm where l: "splitlines snippet = l # ls"
    and sm: "string_similarity target_code snippet = Inr sm"
    and sc: "calculate_matching_scores parse target_code snippet =
         Inr \<lparr>s_first_line_match = first_line_match target_code (strip l),
              s_string_match = sm,
              s_ast_similarity = ast_similarity parse target_code snippet,
              s_keyword_match = keyword_match parse target_code snippet,
              s_end_line_match = end_line_match target_code (last_n 3 (splitlines snippet))\<rparr>"
    by blast
  let ?fl = "first_line_match target_code (strip l)"
  let ?ast = "ast_similarity parse target_code snippet"
  let ?kw = "keyword_match parse target_code snippet"
  let ?el = "end_line_match target_code (last_n 3 (splitlines snippet))"
  have fl: "0 \<le> ?fl \<and> ?fl \<le> 1" by (rule first_line_match_range)
  have s: "0 \<le> sm \<and> sm \<le> 1" using sm by (rule string_similarity_range)
  have kw: "0 \<le> ?kw \<and> ?kw \<le> 1" by (rule keyword_match_range)
  have el: "0 \<le> ?el \<and> ?el \<le> 1" by (rule end_line_match_range)
  have a0: "0 \<le> ?ast" by (rule ast_similarity_nonneg)
  have a1: "?ast \<le> 1 \<longleftrightarrow>
          (\<forall>ts tt. parse snippet = Parsed ts \<and> parse target_code = Parsed tt
             \<longrightarrow> length (walk ts) \<le> length (walk tt))"
    by (rule ast_similarity_le_1_iff)
  let ?c = "?fl * (3 / 10) + sm * (2 / 10) + ?ast * (2 / 10) + ?kw * (1 / 10) + ?el * (2 / 10)"
  from fl s kw el a0 have c0: "0 \<le> ?c" by simp
  from fl s kw el have c1: "?c \<le> 4 / 5 + ?ast * (2 / 10)" by simp
  then have c2: "?ast \<le> 1 \<longrightarrow> ?c \<le> 1" by auto
  show ?thesis
    unfolding sc using fl s kw el a0 a1 c0 c1 c2
    by (simp add: calculate_confidence_score_def)
qed


theorem signals_in_range_witness:
  "strip ''y = x'' \<noteq> []
   \<and> (\<exists>sc. calculate_matching_scores example_parse ''z = 0\<newline>y = x'' ''y = x'' = Inr sc
     \<and> 0 \<le> s_first_line_match sc \<and> s_first_line_match sc \<le> 1
     \<and> 0 \<le> s_string_match sc \<and> s_string_match sc \<le> 1
     \<and> 0 \<le> s_keyword_match sc \<and> s_keyword_match sc \<le> 1
     \<and> 0 \<le> s_end_line_match sc \<and> s_end_line_match sc \<le> 1
     \<and> 0 \<le> s_ast_similarity sc
     \<and> (s_ast_similarity sc \<le> 1 \<longleftrightarrow>
          (\<forall>ts tt. example_parse ''y = x'' = Parsed ts
                 \<and> example_parse ''z = 0\<newline>y = x'' = Parsed tt
             \<longrightarrow> length (walk ts) \<le> length (walk tt)))
     \<and> 0 \<le> calculate_confidence_score sc
     \<and> calculate_confidence_score sc \<le> 4 / 5 + s_ast_similarity sc * (2 / 10)
     \<and> (s_ast_similarity sc \<le> 1 \<longrightarrow> calculate_confidence_score sc \<le> 1))
   \<and> calculate_matching_scores example_parse ''z = 0\<newline>y = x'' ''y = x''
       = Inr \<lparr>s_first_line_match = 1, s_string_match = 1, s_ast_similarity = 3 / 5,
              s_keyword_match = 1, s_end_line_match = 1\<rparr>"
proof -
  have h: "strip ''y = x'' \<noteq> []" by code_simp
  have v: "calculate_matching_scores example_parse ''z = 0\<newline>y = x'' ''y = x''
       = Inr \<lparr>s_first_line_match = 1, s_string_match = 1, s_ast_similarity = 3 / 5,
              s_keyword_match = 1, s_end_line_match = 1\<rparr>"
    by code_simp
  note t = signals_in_range [OF h, of example_parse "''z = 0\<newline>y = x''"]
  show ?thesis by (rule conjI [OF h conjI [OF t v]])
qed

lemma first_line_loop_hit:
  "list_ex (\<lambda>line. sublist fl (strip line)) lines \<Longrightarrow> 4 / 5 \<le> first_line_loop fl lines"
  by (induction lines) auto

lemma strip_decomp: "\<exists>a b. u = a @ strip u @ b"
proof -
  let ?v = "dropWhile is_space u"
  have "u = takeWhile is_space u @ ?v" by simp
  moreover have "rev ?v = takeWhile is_space (rev ?v) @ dropWhile is_space (rev ?v)" by simp
  then have "?v = rev (dropWhile is_space (rev ?v)) @ rev (takeWhile is_space (rev ?v))"
    by (metis rev_append rev_rev_ident)
  ultimately have "u = takeWhile is_space u @ strip u @ rev (takeWhile is_space (rev ?v))"
    by (simp add: strip_def rstrip_def lstrip_def)
  then show ?thesis by blast
qed

lemma strip_last: "strip u \<noteq> [] \<Longrightarrow> \<not> is_space (last (strip u))"
proof -
  let ?w = "dropWhile is_space (rev (dropWhile is_space u))"
  assume "strip u \<noteq> []"
  then have ne: "?w \<noteq> []" by (simp add: strip_def rstrip_def lstrip_def)
  then have "\<not> is_space (hd ?w)" by (rule hd_dropWhile)
  moreover from ne have "last (rev ?w) = hd ?w" by (simp add: last_rev)
  ultimately show ?thesis by (simp add: strip_def rstrip_def lstrip_def)
qed

lemma strip_hd: "strip u \<noteq> [] \<Longrightarrow> \<not> is_space (hd (strip u))"
proof -
  let ?v = "dropWhile is_space u"
  assume ne: "strip u \<noteq> []"
  have "rev ?v = takeWhile is_space (rev ?v) @ dropWhile is_space (rev ?v)" by simp
  then have "?v = rev (dropWhile is_space (rev ?v)) @ rev (takeWhile is_space (rev ?v))"
    by (metis rev_append rev_rev_ident)
  then have v: "?v = strip u @ rev (takeWhile is_space (rev ?v))"
    by (simp add: strip_def rstrip_def lstrip_def)
  from ne v have "?v \<noteq> []" by (metis append_is_Nil_conv)
  then have "\<not> is_space (hd ?v)" by (rule hd_dropWhile)
  moreover from v ne have "hd ?v = hd (strip u)" by (metis hd_append2)
  ultimately show ?thesis by simp
qed

lemma dropWhile_keeps:
  assumes "c \<noteq> []" and "\<not> P (hd c)"
  shows "\<exists>p'. dropWhile P (p @ c @ q) = p' @ c @ q"
proof (induction p)
  case Nil
  from assms have "dropWhile P (c @ q) = c @ q" by (cases c) auto
  then show ?case by (metis append_Nil)
next
  case (Cons x p)
  then obtain p' where p': "dropWhile P (p @ c @ q) = p' @ c @ q" by blast
  show ?case
  proof (cases "P x")
    case True
    with p' show ?thesis by auto
  next
    case False
    then have "dropWhile P ((x # p) @ c @ q) = (x # p) @ c @ q" by simp
    then show ?thesis by blast
  qed
qed

lemma sublist_strip_right:
  assumes "c \<noteq> []" and "\<not> is_space (hd c)" and "\<not> is_space (last c)" and "sublist c w"
  shows "sublist c (strip w)"
proof -
  from assms(4) obtain p q where w: "w = p @ c @ q" by (auto simp: sublist_def)
  from dropWhile_keeps [where P = is_space, OF assms(1,2)] obtain p' where
    l: "dropWhile is_space (p @ c @ q) = p' @ c @ q" by blast
  have rc: "rev c \<noteq> []" "\<not> is_space (hd (rev c))"
    using assms(1,3) by (simp_all add: hd_rev)
  from dropWhile_keeps [where P = is_space and c = "rev c", OF rc] obtain q' where
    r: "dropWhile is_space (rev q @ rev c @ rev p') = q' @ rev c @ rev p'" by blast
  have "strip w = rev (dropWhile is_space (rev (p' @ c @ q)))"
    by (simp add: strip_def rstrip_def lstrip_def w l)
  also have "\<dots> = rev (q' @ rev c @ rev p')" using r by simp
  also have "\<dots> = p' @ c @ rev q'" by simp
  finally show ?thesis by (auto simp: sublist_def)
qed

lemma sublist_strip_mono:
  assumes "sublist u w"
  shows "sublist (strip u) (strip w)"
proof (cases "strip u = []")
  case True
  then show ?thesis by simp
next
  case False
  from strip_decomp [of u] obtain a b where "u = a @ strip u @ b" by blast
  then have "sublist (strip u) u" by (auto simp: sublist_def)
  from this assms have "sublist (strip u) w" by (rule sublist_order.order_trans)
  with False strip_hd [OF False] strip_last [OF False] show ?thesis
    by (intro sublist_strip_right)
qed

lemma after_break_keeps:
  assumes "u \<noteq> []" and "\<not> is_linebreak (hd u)" and "d \<noteq> []"
  shows "\<exists>a'. after_break (d @ u @ c) = a' @ u @ c"
proof (cases d)
  case Nil
  with assms show ?thesis by simp
next
  case (Cons x d')
  show ?thesis
  proof (cases d')
    case Nil
    from assms(1,2) have "hd u \<noteq> CHR 0x0A"
      by (auto simp: is_linebreak_def linebreak_chars_def)
    with assms(1) Cons Nil have "after_break (d @ u @ c) = [] @ u @ c"
      by (cases u) (auto simp: after_break_def)
    then show ?thesis by blast
  next
    case (Cons y d'')
    with \<open>d = x # d'\<close> have "after_break (d @ u @ c) = d'' @ u @ c \<or> after_break (d @ u @ c) = (y # d'') @ u @ c"
      by (auto simp: after_break_def)
    then show ?thesis by blast
  qed
qed

lemma line_contains:
  assumes "u \<noteq> []" and "\<forall>x\<in>set u. \<not> is_linebreak x"
  shows "\<exists>line\<in>set (splitlines (a @ u @ c)). sublist u line"
proof (induction "a @ u @ c" arbitrary: a rule: splitlines.induct)
  case 1
  let ?s = "a @ u @ c"
  let ?nlb = "\<lambda>x. \<not> is_linebreak x"
  from assms(1) have ne: "?s \<noteq> []" by simp
  have sl: "splitlines ?s = takeWhile ?nlb ?s # splitlines (after_break (dropWhile ?nlb ?s))"
    using ne by (subst splitlines.simps) simp
  show ?case
  proof (cases "\<forall>x\<in>set a. ?nlb x")
    case True
    with assms(2) have "takeWhile ?nlb ?s = a @ u @ takeWhile ?nlb c"
      by (simp add: takeWhile_append2)
    then have "sublist u (takeWhile ?nlb ?s)" by (auto simp: sublist_def)
    with sl show ?thesis by simp
  next
    case False
    then have d: "dropWhile ?nlb ?s = dropWhile ?nlb a @ u @ c"
      by (metis dropWhile_append1)
    from False have dn: "dropWhile ?nlb a \<noteq> []" by (simp add: dropWhile_eq_Nil_conv)
    from assms have "\<not> is_linebreak (hd u)" by (cases u) auto
    from after_break_keeps [OF assms(1) this dn, of c] obtain a' where
      a': "after_break (dropWhile ?nlb a @ u @ c) = a' @ u @ c" by blast
    from 1 [OF ne, of a'] a' d
    have "\<exists>line\<in>set (splitlines (after_break (dropWhile ?nlb ?s))). sublist u line" by simp
    with sl show ?thesis by auto
  qed
qed

lemma first_line_found:
  assumes "snippet \<noteq> []" and "sublist snippet target_code" and "splitlines snippet = l # ls"
  shows "list_ex (\<lambda>line. sublist (strip l) (strip line)) (splitlines target_code)"
proof -
  let ?nlb = "\<lambda>x. \<not> is_linebreak x"
  from assms(1,3) have l: "l = takeWhile ?nlb snippet"
    by (subst (asm) splitlines.simps) simp
  from assms(2) obtain a b where t: "target_code = a @ snippet @ b" by (auto simp: sublist_def)
  have "\<exists>line\<in>set (splitlines target_code). sublist l line"
  proof (cases "l = []")
    case True
    from assms(1) t have "target_code \<noteq> []" by simp
    then have "splitlines target_code \<noteq> []" by (subst splitlines.simps) simp
    with True show ?thesis by (cases "splitlines target_code") auto
  next
    case False
    have "\<forall>x\<in>set l. ?nlb x" unfolding l by (auto dest: set_takeWhileD)
    have "snippet = l @ dropWhile ?nlb snippet" unfolding l by simp
    with t have t': "target_code = a @ l @ dropWhile ?nlb snippet @ b" by simp
    from line_contains [OF False \<open>\<forall>x\<in>set l. ?nlb x\<close>, of a "dropWhile ?nlb snippet @ b"]
    show ?thesis unfolding t' .
  qed
  then show ?thesis by (auto simp: list_ex_iff intro: sublist_strip_mono)
qed

text \<open>
  C8.  For every non-empty snippet that occurs verbatim in the target text, the scores
  are computed, the string signal is 1 and the weighted confidence is greater than the
  threshold 3/10.
\<close>

theorem verbatim_snippet_confident:
  assumes "snippet \<noteq> []" and "sublist snippet target_code"
  shows "\<exists>sc. calculate_matching_scores parse target_code snippet = Inr sc
            \<and> s_string_match sc = 1
            \<and> calculate_confidence_score sc > 3 / 10"
proof -
  from assms(1) obtain l ls where l: "splitlines snippet = l # ls"
    by (subst (asm) splitlines.simps) (auto split: if_splits)
  let ?fl = "first_line_match target_code (strip l)"
  let ?ast = "ast_similarity parse target_code snippet"
  let ?kw = "keyword_match parse target_code snippet"
  let ?el = "end_line_match target_code (last_n 3 (splitlines snippet))"
  from assms(2) have sm: "string_similarity target_code snippet = Inr 1"
    by (simp add: string_similarity_def)
  from first_line_found [OF assms l] have "4 / 5 \<le> ?fl"
    unfolding first_line_match_def by (rule first_line_loop_hit)
  moreover have "0 \<le> ?ast" by (rule ast_similarity_nonneg)
  moreover have "0 \<le> ?kw" using keyword_match_range by blast
  moreover have "0 \<le> ?el" using end_line_match_range by blast
  ultimately have "3 / 10 < ?fl * (3 / 10) + 1 * (2 / 10) + ?ast * (2 / 10) + ?kw * (1 / 10) + ?el * (2 / 10)"
    by simp
  with l sm show ?thesis
    by (simp add: calculate_matching_scores_def calculate_confidence_score_def)
qed

theorem verbatim_snippet_confident_witness:
  "''y = x'' \<noteq> []
   \<and> sublist ''y = x'' ''z = 0\<newline>y = x''
   \<and> (\<exists>sc. calculate_matching_scores example_parse ''z = 0\<newline>y = x'' ''y = x'' = Inr sc
          \<and> s_string_match sc = 1
          \<and> calculate_confidence_score sc > 3 / 10)
   \<and> map_sum id calculate_confidence_score
        (calculate_matching_scores example_parse ''z = 0\<newline>y = x'' ''y = x'') = Inr (23 / 25)"
proof -
  have n: "''y = x'' \<noteq> []" by simp
  have h: "sublist ''y = x'' ''z = 0\<newline>y = x''" by code_simp
  have v: "map_sum id calculate_confidence_score
        (calculate_matching_scores example_parse ''z = 0\<newline>y = x'' ''y = x'') = Inr (23 / 25)"
    by code_simp
  note t = verbatim_snippet_confident [OF n h, of example_parse]
  show ?thesis by (rule conjI [OF n conjI [OF h conjI [OF t v]]])
qed

section \<open>Placement\<close>

lemma match_step_miss:
  "\<not> sublist fl (strip (lines ! i)) \<Longrightarrow> match_step t lines sl fl b i = b"
  by (simp add: match_step_def)

lemma match_step_found:
  assumes "found b" and "sl \<noteq> []"
  shows "found (match_step t lines sl fl b i)"
proof -
  from assms(2) have "1 \<le> int (length sl)" by (cases sl) auto
  with assms(1) show ?thesis
    by (auto simp: match_step_def found_def Let_def)
qed

lemma match_step_hit:
  assumes "sublist fl (strip (lines ! i))" and "sl \<noteq> []"
  shows "found (match_step t lines sl fl (0, - 1, - 1) i)"
proof -
  from assms(2) have l: "1 \<le> int (length sl)" by (cases sl) auto
  let ?n = "length (filter (\<lambda>j. sublist (strip (sl ! j)) (strip (lines ! (i + j))))
                     [1..<min (length sl) (length lines - i)])"
  have "0 \<le> end_line_match t (last_n 3 sl)" by (simp add: end_line_match_range)
  moreover have "(0::rat) \<le> of_nat ?n" by simp
  ultimately have "(1::rat) \<le> 1 + of_nat ?n + end_line_match t (last_n 3 sl)" by linarith
  with assms(1) l show ?thesis
    by (auto simp: match_step_def found_def Let_def)
qed

lemma foldl_match_step_found:
  "found b \<Longrightarrow> sl \<noteq> [] \<Longrightarrow> found (foldl (match_step t lines sl fl) b is)"
proof (induction "is" arbitrary: b)
  case Nil
  then show ?case by simp
next
  case (Cons i "is")
  from Cons.prems have "found (match_step t lines sl fl b i)" by (rule match_step_found)
  with Cons.IH Cons.prems(2) show ?case by simp
qed

lemma foldl_match_step_none:
  "\<not> list_ex (\<lambda>i. sublist fl (strip (lines ! i))) is
    \<Longrightarrow> foldl (match_step t lines sl fl) b is = b"
  by (induction "is" arbitrary: b) (auto simp: match_step_miss)

lemma foldl_match_step_some:
  "list_ex (\<lambda>i. sublist fl (strip (lines ! i))) is \<Longrightarrow> sl \<noteq> []
    \<Longrightarrow> found (foldl (match_step t lines sl fl) (0, - 1, - 1) is)"
proof (induction "is")
  case Nil
  then show ?case by simp
next
  case (Cons i "is")
  show ?case
  proof (cases "sublist fl (strip (lines ! i))")
    case True
    from True Cons.prems(2) have "found (match_step t lines sl fl (0, - 1, - 1) i)"
      by (rule match_step_hit)
    with Cons.prems(2) show ?thesis by (simp add: foldl_match_step_found)
  next
    case False
    with Cons show ?thesis by (simp add: match_step_miss)
  qed
qed

lemma list_ex_indices: "list_ex (\<lambda>i. P (xs ! i)) [0..<length xs] = list_ex P xs"
proof -
  have "(\<exists>i\<in>{0..<length xs}. P (xs ! i)) = (\<exists>x\<in>set xs. P x)"
    unfolding in_set_conv_nth Bex_def by auto
  then show ?thesis by (simp add: list_ex_iff)
qed

text \<open>
  C6.  For a snippet with a first line: when the trimmed first line is contained in
  some trimmed target line, \<^verbatim>\<open>_find_best_match\<close> returns a pair with the start not
  after the end (and the start is not \<^verbatim>\<open>-1\<close>); when it is contained in none, the
  result is the pair of \<^verbatim>\<open>-1\<close> and \<^verbatim>\<open>-1\<close>.
\<close>

theorem find_best_match_bounds:
  assumes "splitlines snippet = l # ls"
  shows "(list_ex (\<lambda>line. sublist (strip l) (strip line)) (splitlines target_code) \<longrightarrow>
            (\<exists>s e. find_best_match target_code snippet = Inr (s, e) \<and> s \<le> e \<and> s \<noteq> - 1))
       \<and> (\<not> list_ex (\<lambda>line. sublist (strip l) (strip line)) (splitlines target_code) \<longrightarrow>
            find_best_match target_code snippet = Inr (- 1, - 1))"
proof (intro conjI impI)
  let ?lines = "splitlines target_code"
  let ?r = "foldl (match_step target_code ?lines (l # ls) (strip l)) (0, - 1, - 1) [0..<length ?lines]"
  have f: "find_best_match target_code snippet = Inr (snd ?r)"
    using assms by (simp add: find_best_match_def Let_def)
  {
    assume "list_ex (\<lambda>line. sublist (strip l) (strip line)) ?lines"
    then have "list_ex (\<lambda>i. sublist (strip l) (strip (?lines ! i))) [0..<length ?lines]"
      by (simp add: list_ex_indices [where P = "\<lambda>line. sublist (strip l) (strip line)"])
    then have "found ?r" by (rule foldl_match_step_some) simp
    then have "fst (snd ?r) \<le> snd (snd ?r) \<and> fst (snd ?r) \<noteq> - 1" by (auto simp: found_def)
    with f show "\<exists>s e. find_best_match target_code snippet = Inr (s, e) \<and> s \<le> e \<and> s \<noteq> - 1"
      by (metis prod.collapse)
  }
  {
    assume "\<not> list_ex (\<lambda>line. sublist (strip l) (strip line)) ?lines"
    then have "\<not> list_ex (\<lambda>i. sublist (strip l) (strip (?lines ! i))) [0..<length ?lines]"
      by (simp add: list_ex_indices [where P = "\<lambda>line. sublist (strip l) (strip line)"])
    then have "?r = (0, - 1, - 1)" by (rule foldl_match_step_none)
    with f show "find_best_match target_code snippet = Inr (- 1, - 1)" by simp
  }
qed


theorem find_best_match_bounds_witness:
  "splitlines ''def foo():\<newline>    return 1'' = ''def foo():'' # [''    return 1'']
   \<and> list_ex (\<lambda>line. sublist (strip ''def foo():'') (strip line))
        (splitlines ''x\<newline>def foo():\<newline>    return 1\<newline>y'')
   \<and> (\<exists>s e. find_best_match ''x\<newline>def foo():\<newline>    return 1\<newline>y''
                ''def foo():\<newline>    return 1'' = Inr (s, e) \<and> s \<le> e \<and> s \<noteq> - 1)
   \<and> find_best_match ''x\<newline>def foo():\<newline>    return 1\<newline>y''
         ''def foo():\<newline>    return 1'' = Inr (2, 3)
   \<and> \<not> list_ex (\<lambda>line. sublist (strip ''def foo():'') (strip line)) (splitlines ''x\<newline>y'')
   \<and> find_best_match ''x\<newline>y'' ''def foo():\<newline>    return 1'' = Inr (- 1, - 1)"
proof -
  have a: "splitlines ''def foo():\<newline>    return 1'' = ''def foo():'' # [''    return 1'']"
    by code_simp
  have h: "list_ex (\<lambda>line. sublist (strip ''def foo():'') (strip line))
        (splitlines ''x\<newline>def foo():\<newline>    return 1\<newline>y'')"
    by code_simp
  have n: "\<not> list_ex (\<lambda>line. sublist (strip ''def foo():'') (strip line)) (splitlines ''x\<newline>y'')"
    by code_simp
  have v: "find_best_match ''x\<newline>def foo():\<newline>    return 1\<newline>y''
         ''def foo():\<newline>    return 1'' = Inr (2, 3)"
    by code_simp
  from find_best_match_bounds [OF a, of "''x\<newline>def foo():\<newline>    return 1\<newline>y''"] h
  have w1: "\<exists>s e. find_best_match ''x\<newline>def foo():\<newline>    return 1\<newline>y''
                ''def foo():\<newline>    return 1'' = Inr (s, e) \<and> s \<le> e \<and> s \<noteq> - 1"
    by blast
  from find_best_match_bounds [OF a, of "''x\<newline>y''"] n
  have w2: "find_best_match ''x\<newline>y'' ''def foo():\<newline>    return 1'' = Inr (- 1, - 1)"
    by blast
  show ?thesis by (intro conjI; fact)
qed

section \<open>Ranking\<close>

lemma process_file_Some:
  assumes "process_file parse fs snippet py_file = Some p"
  shows "confidence p > 3 / 10 \<and> start_line p \<noteq> - 1 \<and> file_path p = py_file"
  using assms
  by (auto simp: process_file_def Let_def split: sum.splits if_splits prod.splits)

lemma set_sorted_reverse: "set (sorted_reverse f xs) = set xs"
  by (simp add: sorted_reverse_def)

lemma sorted_sorted_reverse: "sorted_wrt (\<lambda>p q. f p \<ge> f q) (sorted_reverse f xs)"
proof -
  have "sorted (map f (sort_key f (rev xs)))" by (rule sorted_sort_key)
  then have "sorted_wrt (\<lambda>x y. f x \<le> f y) (sort_key f (rev xs))" by (simp add: sorted_map)
  then show ?thesis by (simp add: sorted_reverse_def sorted_wrt_rev)
qed

lemma sorted_reverse_stable:
  "filter (\<lambda>y. f y = k) (sorted_reverse f xs) = filter (\<lambda>y. f y = k) xs"
proof -
  have "filter (\<lambda>y. f y = k) (sorted_reverse f xs)
          = rev (filter (\<lambda>y. f y = k) (sort_key f (rev xs)))"
    by (simp add: sorted_reverse_def rev_filter)
  also have "\<dots> = rev (filter (\<lambda>y. f y = k) (rev xs))" by (simp only: sort_key_stable)
  also have "\<dots> = filter (\<lambda>y. f y = k) xs" by (simp add: rev_filter)
  finally show ?thesis .
qed

lemma subseq_take: "subseq (take n xs) xs"
  by (metis append_take_drop_id prefix_def prefix_imp_subseq)

lemma file_path_map_filter:
  "subseq (map file_path (List.map_filter (process_file parse fs snippet) files)) files"
proof (induction files)
  case Nil
  then show ?case by (simp add: List.map_filter_simps)
next
  case (Cons f files)
  show ?case
  proof (cases "process_file parse fs snippet f")
    case None
    from Cons have "subseq (map file_path (List.map_filter (process_file parse fs snippet) files))
                      (f # files)"
      by (rule list_emb_Cons)
    with None show ?thesis by (simp add: List.map_filter_simps)
  next
    case (Some p)
    then have "file_path p = f" by (simp add: process_file_Some)
    with Some Cons show ?thesis by (simp add: List.map_filter_simps)
  qed
qed

lemma set_map_filter: "p \<in> set (List.map_filter g xs) \<Longrightarrow> \<exists>x. g x = Some p"
  by (auto simp: List.map_filter_def)

text \<open>
  C7.  Whatever \<^verbatim>\<open>check_folder_for_snippet\<close> returns has at most two placements, each
  with a confidence above 3/10 and a start line other than \<^verbatim>\<open>-1\<close>; the confidences do
  not increase along the list, and the files of the returned placements of equal
  confidence follow the order of the directory listing.
\<close>

theorem check_folder_ranking:
  assumes "check_folder_for_snippet parse fs folder snippet = (Inr res, evs)"
  shows "length res \<le> 2
       \<and> list_all (\<lambda>p. confidence p > 3 / 10 \<and> start_line p \<noteq> - 1) res
       \<and> sorted_wrt (\<lambda>p q. confidence p \<ge> confidence q) res
       \<and> (\<exists>names. listdir fs folder = Inr names
            \<and> (\<forall>c. subseq (map file_path (filter (\<lambda>p. confidence p = c) res))
                      (map (path_join folder) names)))"
proof -
  from assms obtain names where n: "listdir fs folder = Inr names"
    by (auto simp: check_folder_for_snippet_def split: if_splits parse_result.splits sum.splits)
  let ?files = "map (path_join folder) (filter (suffix ''.py'') names)"
  let ?pl = "List.map_filter (process_file parse fs snippet) ?files"
  let ?sr = "sorted_reverse confidence ?pl"
  from assms n have res: "res = take 2 ?sr"
    by (auto simp: check_folder_for_snippet_def Let_def split: if_splits parse_result.splits)
  have len: "length res \<le> 2" by (simp add: res)
  have all: "list_all (\<lambda>p. confidence p > 3 / 10 \<and> start_line p \<noteq> - 1) res"
    unfolding list_all_iff
  proof
    fix p assume "p \<in> set res"
    then have "p \<in> set ?sr" unfolding res by (rule in_set_takeD)
    then have "p \<in> set ?pl" by (simp add: set_sorted_reverse)
    then obtain f where "process_file parse fs snippet f = Some p" by (auto dest: set_map_filter)
    then show "confidence p > 3 / 10 \<and> start_line p \<noteq> - 1"
      using process_file_Some by blast
  qed
  have srt: "sorted_wrt (\<lambda>p q. confidence p \<ge> confidence q) res"
    unfolding res by (rule sorted_wrt_take) (rule sorted_sorted_reverse)
  have ties: "subseq (map file_path (filter (\<lambda>p. confidence p = c) res))
                (map (path_join folder) names)" for c
  proof -
    have "subseq (filter (\<lambda>p. confidence p = c) res) (filter (\<lambda>p. confidence p = c) ?sr)"
      unfolding res by (rule subseq_filter) (rule subseq_take)
    also have "filter (\<lambda>p. confidence p = c) ?sr = filter (\<lambda>p. confidence p = c) ?pl"
      by (rule sorted_reverse_stable)
    finally have "subseq (filter (\<lambda>p. confidence p = c) res) ?pl"
      using subseq_filter_left subseq_order.order_trans by blast
    then have "subseq (map file_path (filter (\<lambda>p. confidence p = c) res)) (map file_path ?pl)"
      by (rule subseq_map)
    also have "subseq (map file_path ?pl) ?files" by (rule file_path_map_filter)
    also have "subseq ?files (map (path_join folder) names)"
      by (rule subseq_map) (rule subseq_filter_left)
    finally show ?thesis .
  qed
  from len all srt n ties show ?thesis by blast
qed

theorem check_folder_ranking_witness:
  "check_folder_for_snippet example_parse example_fs ''proj'' ''y = x''
     = (Inr [\<lparr>file_path = ''proj/b.py'', confidence = 1, matched_code = ''y = x'',
               start_line = 1, end_line = 1\<rparr>,
             \<lparr>file_path = ''proj/a.py'', confidence = 23 / 25, matched_code = ''y = x'',
               start_line = 2, end_line = 2\<rparr>],
        [ListDir ''proj'', OpenRead ''proj/a.py'', OpenRead ''proj/b.py''])
   \<and> (\<exists>res. fst (check_folder_for_snippet example_parse example_fs ''proj'' ''y = x'') = Inr res
       \<and> length res \<le> 2
       \<and> list_all (\<lambda>p. confidence p > 3 / 10 \<and> start_line p \<noteq> - 1) res
       \<and> sorted_wrt (\<lambda>p q. confidence p \<ge> confidence q) res
       \<and> (\<exists>names. listdir example_fs ''proj'' = Inr names
            \<and> (\<forall>c. subseq (map file_path (filter (\<lambda>p. confidence p = c) res))
                      (map (path_join ''proj'') names))))"
proof -
  have e: "check_folder_for_snippet example_parse example_fs ''proj'' ''y = x''
     = (Inr [\<lparr>file_path = ''proj/b.py'', confidence = 1, matched_code = ''y = x'',
               start_line = 1, end_line = 1\<rparr>,
             \<lparr>file_path = ''proj/a.py'', confidence = 23 / 25, matched_code = ''y = x'',
               start_line = 2, end_line = 2\<rparr>],
        [ListDir ''proj'', OpenRead ''proj/a.py'', OpenRead ''proj/b.py''])"
    by code_simp
  note t = check_folder_ranking [OF e]
  from e t show ?thesis by simp
qed

end
